theory Spec2Isabelle
  imports Complex_Main "HOL-Library.Word" "HOL-Library.Log_Nat"
begin

section \<open>Data model\<close>

text \<open>
  An instant of \<^verbatim>\<open>time.Time\<close> is a number of nanoseconds on the clock that
  \<^verbatim>\<open>time.Now\<close> reads; \<^verbatim>\<open>t.Before(u)\<close> is \<open>t < u\<close> and \<^verbatim>\<open>t.Add(d)\<close> is
  \<open>t + d\<close>. A \<^verbatim>\<open>time.Duration\<close> is an int64 count of nanoseconds.
\<close>

type_synonym time = int

text \<open>\<^verbatim>\<open>CommonResp\<close> is embedded in \<^verbatim>\<open>AccessTokenResp\<close>; its fields are listed first.\<close>

record AccessTokenResp =
  ErrCode :: int
  ErrMsg :: string
  RequestID :: string
  AccessToken :: string
  ExpiresIn :: "64 word"

definition zero_AccessTokenResp :: AccessTokenResp where
  "zero_AccessTokenResp =
     \<lparr>ErrCode = 0, ErrMsg = [], RequestID = [], AccessToken = [], ExpiresIn = 0\<rparr>"

text \<open>
  The client. The logger and the mutex carry no data; the mutex is held for the whole of
  \<^verbatim>\<open>GetAccessToken\<close>, so that one call is one atomic step on this record.
\<close>

record DingTalkClient =
  agentId :: string
  appKey :: string
  appSecret :: string
  accessToken :: string
  expireTime :: time

definition NewDingTalkClient :: "string \<Rightarrow> string \<Rightarrow> string \<Rightarrow> DingTalkClient" where
  "NewDingTalkClient agent key secret =
     \<lparr>agentId = agent, appKey = key, appSecret = secret, accessToken = [], expireTime = 0\<rparr>"

text \<open>
  Every \<^verbatim>\<open>fmt.Errorf\<close> of the source is one constructor, holding the values the
  message is formatted from.
\<close>

datatype error =
    ReadFailed string
  | ParseFailed string
  | NewRequestFailed string
  | RequestFailed string
  | TokenRequestFailed string
  | TokenStatusFailed string int
  | TokenReadFailed error
  | TokenRejected string int
  | MarshalFailed string
  | SendFailed int error

section \<open>float64 arithmetic\<close>

text \<open>
  A finite float64 is the rational it stands for. Every operation of the source on
  float64 values yields the exact result rounded to the nearest float64, ties to the
  even significand: 53 bits of significand above the exponent -1074, where the
  subnormal numbers start. Each operation is rounded on its own. Results of magnitude
  \<open>2 ^ 1024\<close> and above, which are infinite in float64, are left as their rounded
  rational; with the configuration that \<^verbatim>\<open>NewBackoff\<close> builds no value exceeds
  288000000000 (\<open>grow_default_upper\<close>, \<open>Duration_default_bounds\<close>).
\<close>

definition pow2 :: "int \<Rightarrow> rat" where
  "pow2 e = (if 0 \<le> e then 2 ^ nat e else 1 / 2 ^ nat (- e))"

text \<open>The exponent of the leading bit of a positive rational.\<close>

definition ilog2 :: "rat \<Rightarrow> int" where
  "ilog2 x = (if 1 \<le> x then bitlen \<lfloor>x\<rfloor> - 1 else - bitlen (\<lceil>1 / x\<rceil> - 1))"

definition round_even :: "rat \<Rightarrow> int" where
  "round_even y =
     (let f = \<lfloor>y\<rfloor>; d = y - of_int f in
      if d < 1 / 2 then f else if 1 / 2 < d then f + 1 else if even f then f else f + 1)"

text \<open>The exponent of the last place of the float64 nearest to \<open>x\<close>.\<close>

definition f64_exp :: "rat \<Rightarrow> int" where
  "f64_exp x = max (ilog2 \<bar>x\<bar> - 52) (- 1074)"

definition f64_round :: "rat \<Rightarrow> rat" where
  "f64_round x =
     (if x = 0 then 0 else of_int (round_even (x / pow2 (f64_exp x))) * pow2 (f64_exp x))"

definition f64_of_int :: "int \<Rightarrow> rat" where
  "f64_of_int i = f64_round (of_int i)"

definition f64_mul :: "rat \<Rightarrow> rat \<Rightarrow> rat" where
  "f64_mul a b = f64_round (a * b)"

definition f64_add :: "rat \<Rightarrow> rat \<Rightarrow> rat" where
  "f64_add a b = f64_round (a + b)"

definition f64_sub :: "rat \<Rightarrow> rat \<Rightarrow> rat" where
  "f64_sub a b = f64_round (a - b)"

text \<open>
  The conversion \<^verbatim>\<open>time.Duration(backoff)\<close> drops the fraction. Outside int64 the
  language leaves the result to the implementation; amd64 gives the least int64.
\<close>

definition int64_of_f64 :: "rat \<Rightarrow> int" where
  "int64_of_f64 x =
     (let t = (if 0 \<le> x then \<lfloor>x\<rfloor> else \<lceil>x\<rceil>) in
      if - (2 ^ 63) \<le> t \<and> t < 2 ^ 63 then t else - (2 ^ 63))"

section \<open>The backoff policy\<close>

text \<open>Durations are int64 counts of nanoseconds; the two float64 fields are rationals.\<close>

record Backoff =
  MaxDelay :: int
  baseDelay :: int
  factor :: rat
  jitter :: rat

text \<open>
  \<^verbatim>\<open>defaultMaxDelay\<close> is three minutes and \<^verbatim>\<open>defaultBaseDelay\<close> one second; the
  constants 1.6 and 0.2 become the float64 values nearest to them.
\<close>

definition NewBackoff :: Backoff where
  "NewBackoff = \<lparr>MaxDelay = 180000000000, baseDelay = 1000000000,
                  factor = f64_round (16 / 10), jitter = f64_round (2 / 10)\<rparr>"

text \<open>The loop \<^verbatim>\<open>for backoff < max && retries > 0\<close>, on the retries still to count.\<close>

fun grow :: "rat \<Rightarrow> rat \<Rightarrow> rat \<Rightarrow> nat \<Rightarrow> rat" where
  "grow fac mx backoff 0 = backoff"
| "grow fac mx backoff (Suc n) =
     (if backoff < mx then grow fac mx (f64_mul backoff fac) n else backoff)"

text \<open>
  \<^verbatim>\<open>Duration\<close>; \<open>rnd\<close> is what \<^verbatim>\<open>rand.Float64()\<close> returns, a float64 from 0 up to
  but not including 1, read only when \<open>retries\<close> is positive.
\<close>

definition Duration :: "Backoff \<Rightarrow> int \<Rightarrow> rat \<Rightarrow> int" where
  "Duration bc retries rnd =
     (if retries \<le> 0 then baseDelay bc
      else
        (let mx = f64_of_int (MaxDelay bc);
             backoff = grow (factor bc) mx (f64_of_int (baseDelay bc)) (nat retries);
             backoff = (if backoff > mx then mx else backoff);
             backoff = f64_mul backoff
                         (f64_add 1 (f64_mul (jitter bc) (f64_sub (f64_mul rnd 2) 1)))
         in if backoff < 0 then 0 else int64_of_f64 backoff))"

section \<open>The HTTP boundary\<close>

text \<open>
  What a response body yields to \<^verbatim>\<open>readResult\<close>: \<^verbatim>\<open>io.ReadAll\<close> fails, or
  \<^verbatim>\<open>json.Unmarshal\<close> fails (leaving some value in the target), or the target is decoded.
\<close>

datatype 'a body =
    Unreadable string
  | Undecodable string 'a
  | Decoded 'a

fun readResult :: "'a body \<Rightarrow> 'a \<Rightarrow> error option \<times> 'a" where
  "readResult (Unreadable e) out = (Some (ReadFailed e), out)"
| "readResult (Undecodable e out') out = (Some (ParseFailed e), out')"
| "readResult (Decoded out') out = (None, out')"

text \<open>The outcome of \<^verbatim>\<open>http.Get\<close>: an error, or a response with its status code and text.\<close>

datatype 'a http_get =
    GetError string
  | GetResponse int string "'a body"

text \<open>
  What a call does to the outside world, in order: the GET of the token endpoint with the
  application's key and secret, one call of \<^verbatim>\<open>post\<close> to the relay with the request
  object and the token of its header, and \<^verbatim>\<open>time.Sleep\<close> with its duration. Log lines
  are not recorded.
\<close>

record SendMsgByRobotReq =
  RobotCode :: string
  UserIDs :: "string list"
  MsgKey :: string
  MsgParam :: string

datatype event =
    TokenFetch string string
  | Post SendMsgByRobotReq string
  | Sleep int

section \<open>The token cache\<close>

text \<open>
  The surroundings of one call of \<^verbatim>\<open>GetAccessToken\<close>: the clock read by the validity
  check, the outcome of the request (consulted only when the request is made), and the
  clock read when the result is stored.
\<close>

record token_env =
  now_check :: time
  token_get :: "AccessTokenResp http_get"
  now_store :: time

definition Second :: "64 word" where
  "Second = 1000000000"

definition GetAccessToken ::
  "token_env \<Rightarrow> DingTalkClient \<Rightarrow> (error + string) \<times> DingTalkClient \<times> event list" where
  "GetAccessToken env d =
     (if accessToken d \<noteq> [] \<and> now_check env < expireTime d
      then (Inr (accessToken d), d, [])
      else
        (let fetch = [TokenFetch (appKey d) (appSecret d)] in
         (case token_get env of
            GetError e \<Rightarrow> (Inl (TokenRequestFailed e), d, fetch)
          | GetResponse code status b \<Rightarrow>
              (if code \<noteq> 200 then (Inl (TokenStatusFailed status code), d, fetch)
               else
                 (case readResult b zero_AccessTokenResp of
                    (Some e, atr) \<Rightarrow> (Inl (TokenReadFailed e), d, fetch)
                  | (None, atr) \<Rightarrow>
                      (if ErrCode atr \<noteq> 0
                       then (Inl (TokenRejected (ErrMsg atr) (ErrCode atr)),
                             d\<lparr>accessToken := [], expireTime := now_store env\<rparr>, fetch)
                       else (Inr (AccessToken atr),
                             d\<lparr>accessToken := AccessToken atr,
                               expireTime := now_store env + sint (ExpiresIn atr * Second)\<rparr>,
                             fetch)))))))"

text \<open>Calls made one after the other, each in its own surroundings.\<close>

fun acquire_all ::
  "token_env list \<Rightarrow> DingTalkClient \<Rightarrow> (error + string) list \<times> DingTalkClient \<times> event list" where
  "acquire_all [] d = ([], d, [])"
| "acquire_all (env # envs) d =
     (case GetAccessToken env d of
        (r, d', evs) \<Rightarrow>
          (case acquire_all envs d' of
             (rs, d'', evs') \<Rightarrow> (r # rs, d'', evs @ evs')))"

section \<open>Sending a message through the robot\<close>

record MsgContent =
  Title :: string
  Text :: string

record SendMsgByRobotResp =
  Code :: string
  ReqID :: string
  Message :: string
  ProcessQueryKey :: string
  InvalidStaffIdList :: "string list"
  FlowControlledStaffIdList :: "string list"

definition zero_SendMsgByRobotResp :: SendMsgByRobotResp where
  "zero_SendMsgByRobotResp =
     \<lparr>Code = [], ReqID = [], Message = [], ProcessQueryKey = [],
      InvalidStaffIdList = [], FlowControlledStaffIdList = []\<rparr>"

text \<open>
  The outcome of the HTTP exchange inside \<^verbatim>\<open>post\<close>: \<^verbatim>\<open>http.NewRequest\<close> fails,
  or the client's \<^verbatim>\<open>Do\<close> fails, or a response arrives. \<^verbatim>\<open>post\<close> does not look at
  the status code of the response.
\<close>

datatype 'a http_post =
    NewRequestError string
  | DoError string
  | PostResponse "'a body"

fun post :: "'a http_post \<Rightarrow> 'a \<Rightarrow> error option \<times> 'a" where
  "post (NewRequestError e) out = (Some (NewRequestFailed e), out)"
| "post (DoError e) out = (Some (RequestFailed e), out)"
| "post (PostResponse b) out = readResult b out"

text \<open>
  The surroundings of one call of \<^verbatim>\<open>SendMessageFromRobot\<close>: those of its call of
  \<^verbatim>\<open>GetAccessToken\<close>, the outcome of \<^verbatim>\<open>json.Marshal\<close> on the message, the outcome
  of the i-th call of \<^verbatim>\<open>post\<close> and the i-th draw of \<^verbatim>\<open>rand.Float64()\<close>, counted
  from 0.
\<close>

record send_env =
  token_surroundings :: token_env
  marshal :: "MsgContent \<Rightarrow> string + string"
  relay :: "nat \<Rightarrow> SendMsgByRobotResp http_post"
  draw :: "nat \<Rightarrow> rat"

text \<open>
  The \<^verbatim>\<open>for\<close> loop, from the values of \<open>retries\<close>, \<open>ret\<close> and \<open>err\<close> at its head;
  it returns their values after the loop and what the loop did. Every failed call adds
  one to \<open>retries\<close>, so the call made at \<open>retries\<close> is call number \<open>retries\<close>.
\<close>

function send_loop ::
  "send_env \<Rightarrow> SendMsgByRobotReq \<Rightarrow> string \<Rightarrow> int \<Rightarrow> SendMsgByRobotResp \<Rightarrow> error option
     \<Rightarrow> int \<times> SendMsgByRobotResp \<times> error option \<times> event list" where
  "send_loop env reqObj accToken retries ret err =
     (if retries > 3 then (retries, ret, err, [])
      else
        (case post (relay env (nat retries)) ret of
           (Some e, ret') \<Rightarrow>
             (case send_loop env reqObj accToken (retries + 1) ret' (Some e) of
                (n, r, e', evs) \<Rightarrow>
                  (n, r, e',
                   Post reqObj accToken
                     # Sleep (Duration NewBackoff (retries + 1) (draw env (nat retries)))
                     # evs))
         | (None, ret') \<Rightarrow> (retries, ret', None, [Post reqObj accToken])))"
  by pat_completeness auto
termination
  by (relation "measure (\<lambda>(env, reqObj, accToken, retries, ret, err). nat (4 - retries))") auto

definition SendMessageFromRobot ::
  "send_env \<Rightarrow> DingTalkClient \<Rightarrow> string \<Rightarrow> string \<Rightarrow> string \<Rightarrow> string list
     \<Rightarrow> (error + SendMsgByRobotResp option) \<times> DingTalkClient \<times> event list" where
  "SendMessageFromRobot env d robotCode title content to =
     (case GetAccessToken (token_surroundings env) d of
        (Inl e, d', evs) \<Rightarrow> (Inl e, d', evs)
      | (Inr accToken, d', evs) \<Rightarrow>
          (case marshal env \<lparr>Title = title, Text = content\<rparr> of
             Inl e \<Rightarrow> (Inl (MarshalFailed e), d', evs)
           | Inr msg \<Rightarrow>
               (if length to = 0 then (Inr None, d', evs)
                else
                  (let to = (if length to > 20 then take 20 to else to);
                       reqObj = \<lparr>RobotCode = robotCode, UserIDs = to,
                                 MsgKey = ''officialMarkdownMsg'', MsgParam = msg\<rparr>
                   in (case send_loop env reqObj accToken 0 zero_SendMsgByRobotResp None of
                         (retries, ret, Some e, evs') \<Rightarrow>
                           (Inl (SendFailed retries e), d', evs @ evs')
                       | (retries, ret, None, evs') \<Rightarrow> (Inr (Some ret), d', evs @ evs'))))))"

declare send_loop.simps [simp del]

text \<open>The requests posted and the sleeps taken, read off the events.\<close>

fun posted :: "event list \<Rightarrow> SendMsgByRobotReq list" where
  "posted [] = []"
| "posted (Post q t # evs) = q # posted evs"
| "posted (ev # evs) = posted evs"

fun slept :: "event list \<Rightarrow> int list" where
  "slept [] = []"
| "slept (Sleep d # evs) = d # slept evs"
| "slept (ev # evs) = slept evs"

section \<open>Concrete inputs\<close>

definition client0 :: DingTalkClient where
  "client0 = \<lparr>agentId = ''a'', appKey = ''k'', appSecret = ''s'',
              accessToken = ''tok'', expireTime = 7200\<rparr>"

definition env_at :: "time \<Rightarrow> AccessTokenResp http_get \<Rightarrow> token_env" where
  "env_at t g = \<lparr>now_check = t, token_get = g, now_store = t\<rparr>"

definition rejected_resp :: AccessTokenResp where
  "rejected_resp = \<lparr>ErrCode = 40089, ErrMsg = ''bad secret'', RequestID = [],
                    AccessToken = [], ExpiresIn = 0\<rparr>"

definition granted_resp :: "64 word \<Rightarrow> AccessTokenResp" where
  "granted_resp ttl = \<lparr>ErrCode = 0, ErrMsg = ''ok'', RequestID = [],
                       AccessToken = ''fresh'', ExpiresIn = ttl\<rparr>"

definition env1 :: send_env where
  "env1 = \<lparr>token_surroundings = env_at 10 (GetError ''down''),
           marshal = (\<lambda>m. Inr (Title m @ Text m)),
           relay = (\<lambda>i. DoError ''refused''),
           draw = (\<lambda>i. 1 / 2)\<rparr>"

definition accepted_resp :: SendMsgByRobotResp where
  "accepted_resp = zero_SendMsgByRobotResp\<lparr>ProcessQueryKey := ''key''\<rparr>"

definition env2 :: send_env where
  "env2 = \<lparr>token_surroundings = env_at 10 (GetError ''down''),
           marshal = (\<lambda>m. Inr (Title m @ Text m)),
           relay = (\<lambda>i. PostResponse (Decoded accepted_resp)),
           draw = (\<lambda>i. 1 / 2)\<rparr>"

definition ids25 :: "string list" where
  "ids25 = [''u01'', ''u02'', ''u03'', ''u04'', ''u05'', ''u06'', ''u07'', ''u08'', ''u09'',
            ''u10'', ''u11'', ''u12'', ''u13'', ''u14'', ''u15'', ''u16'', ''u17'', ''u18'',
            ''u19'', ''u20'', ''u21'', ''u22'', ''u23'', ''u24'', ''u25'']"

section \<open>Rounding to float64 is monotone\<close>

lemma pow2_powi: "pow2 e = 2 powi e"
  by (simp add: pow2_def power_int_def inverse_eq_divide power_one_over)

lemma pow2_pos: "0 < pow2 e"
  by (simp add: pow2_powi)

lemma pow2_mono: "a \<le> b \<Longrightarrow> pow2 a \<le> pow2 b"
  by (simp add: pow2_powi power_int_increasing)

lemma pow2_add: "pow2 (a + b) = pow2 a * pow2 b"
  by (simp add: pow2_powi power_int_add)

lemma pow2_nat: "pow2 (int n) = 2 ^ n"
  by (simp add: pow2_def)

lemma round_even_cases: "round_even y = \<lfloor>y\<rfloor> \<or> round_even y = \<lfloor>y\<rfloor> + 1"
  by (simp add: round_even_def Let_def)

lemma round_even_of_int: "round_even (of_int n) = n"
  by (simp add: round_even_def Let_def)

lemma round_even_mono: "y \<le> z \<Longrightarrow> round_even y \<le> round_even z"
proof -
  assume yz: "y \<le> z"
  then have fl: "\<lfloor>y\<rfloor> \<le> \<lfloor>z\<rfloor>" by (rule floor_mono)
  show ?thesis
  proof (cases "\<lfloor>y\<rfloor> = \<lfloor>z\<rfloor>")
    case True
    with yz show ?thesis by (auto simp add: round_even_def Let_def)
  next
    case False
    with fl have "\<lfloor>y\<rfloor> + 1 \<le> \<lfloor>z\<rfloor>" by simp
    moreover have "round_even y \<le> \<lfloor>y\<rfloor> + 1" using round_even_cases [of y] by auto
    moreover have "\<lfloor>z\<rfloor> \<le> round_even z" using round_even_cases [of z] by auto
    ultimately show ?thesis by linarith
  qed
qed

lemma round_even_ge: "of_int n \<le> y \<Longrightarrow> n \<le> round_even y"
  using round_even_mono [of "of_int n" y] by (simp add: round_even_of_int)

lemma round_even_le: "y \<le> of_int n \<Longrightarrow> round_even y \<le> n"
  using round_even_mono [of y "of_int n"] by (simp add: round_even_of_int)

lemma round_even_minus: "round_even (- y) = - round_even y"
proof (cases "y = of_int \<lfloor>y\<rfloor>")
  case True
  then obtain n where "y = of_int n" ..
  then have "- y = of_int (- n)" by simp
  then show ?thesis using \<open>y = of_int n\<close> round_even_of_int by metis
next
  case False
  then have "y \<notin> \<int>" by (metis Ints_cases floor_of_int)
  then have c: "\<lceil>y\<rceil> = \<lfloor>y\<rfloor> + 1" by (simp add: ceiling_altdef False)
  have f: "\<lfloor>- y\<rfloor> = - \<lfloor>y\<rfloor> - 1" using c by (simp add: floor_minus)
  show ?thesis
    unfolding round_even_def Let_def f
    by (auto simp add: algebra_simps)
qed

lemma bitlen_ge1: "1 \<le> n \<Longrightarrow> 1 \<le> bitlen n"
  using bitlen_nonneg [of n] bitlen_eq_zero_iff [of n] by linarith

lemma ilog2_bounds:
  assumes "0 < x"
  shows "pow2 (ilog2 x) \<le> x \<and> x < pow2 (ilog2 x + 1)"
proof (cases "1 \<le> x")
  case True
  define n where "n = \<lfloor>x\<rfloor>"
  have n1: "1 \<le> n" using True by (simp add: n_def)
  then have b: "2 ^ nat (bitlen n - 1) \<le> n \<and> n < 2 ^ nat (bitlen n)"
    using bitlen_bounds [of n] by simp
  have bl: "1 \<le> bitlen n" using n1 by (rule bitlen_ge1)
  have il: "ilog2 x = bitlen n - 1" using True by (simp add: ilog2_def n_def)
  have "rat_of_int (2 ^ nat (bitlen n - 1)) \<le> of_int n" using b by (simp only: of_int_le_iff)
  also have "\<dots> \<le> x" by (simp add: n_def)
  finally have lo: "pow2 (ilog2 x) \<le> x" using bl by (simp add: il pow2_def)
  have "n + 1 \<le> 2 ^ nat (bitlen n)" using b by simp
  then have "rat_of_int (n + 1) \<le> of_int (2 ^ nat (bitlen n))" by (simp only: of_int_le_iff)
  moreover have "x < of_int (n + 1)" unfolding n_def by linarith
  ultimately have "x < of_int (2 ^ nat (bitlen n))" by simp
  then have hi: "x < pow2 (ilog2 x + 1)" using bl by (simp add: il pow2_def)
  from lo hi show ?thesis ..
next
  case False
  then have x1: "x < 1" by simp
  define y where "y = 1 / x"
  define m where "m = \<lceil>y\<rceil>"
  have y1: "1 < y" using assms x1 by (simp add: y_def)
  then have m2: "2 \<le> m" unfolding m_def by linarith
  then have b: "2 ^ nat (bitlen (m - 1) - 1) \<le> m - 1 \<and> m - 1 < 2 ^ nat (bitlen (m - 1))"
    using bitlen_bounds [of "m - 1"] by simp
  have bl: "1 \<le> bitlen (m - 1)" using m2 by (simp add: bitlen_ge1)
  define k where "k = nat (bitlen (m - 1))"
  have k1: "1 \<le> k" and kb: "bitlen (m - 1) = int k" using bl by (simp_all add: k_def)
  have "ilog2 x = - bitlen (m - 1)" unfolding ilog2_def m_def y_def using False by simp
  then have il: "ilog2 x = - int k" by (simp only: kb)
  have "m \<le> 2 ^ k" using b by (simp add: k_def)
  then have "rat_of_int m \<le> 2 ^ k" by simp
  moreover have "y \<le> of_int m" by (simp add: m_def)
  ultimately have yk: "y \<le> 2 ^ k" by linarith
  have "1 / 2 ^ k \<le> 1 / y" using yk y1 by (simp add: frac_le)
  then have lo: "pow2 (ilog2 x) \<le> x" using k1 assms by (simp add: il pow2_def y_def)
  have "nat (bitlen (m - 1) - 1) = k - 1" unfolding kb by linarith
  then have "2 ^ (k - 1) \<le> m - 1" using b by simp
  then have "2 ^ (k - 1) \<le> rat_of_int (m - 1)" by (simp del: of_int_diff)
  moreover have "of_int (m - 1) < y" unfolding m_def by linarith
  ultimately have "2 ^ (k - 1) < y" by linarith
  then have "1 / y < 1 / 2 ^ (k - 1)" by (simp add: frac_less2)
  moreover have "pow2 (- int k + 1) = 1 / 2 ^ (k - 1)"
    using k1 by (cases "k = 1") (simp_all add: pow2_def nat_diff_distrib)
  ultimately have hi: "x < pow2 (ilog2 x + 1)" using assms by (simp add: il y_def)
  from lo hi show ?thesis ..
qed


lemma ilog2_mono:
  assumes "0 < x" and "x \<le> y"
  shows "ilog2 x \<le> ilog2 y"
proof (rule ccontr)
  assume "\<not> ilog2 x \<le> ilog2 y"
  then have "ilog2 y + 1 \<le> ilog2 x" by simp
  then have "pow2 (ilog2 y + 1) \<le> pow2 (ilog2 x)" by (rule pow2_mono)
  moreover have "y < pow2 (ilog2 y + 1)" using ilog2_bounds [of y] assms by simp
  moreover have "pow2 (ilog2 x) \<le> x" using ilog2_bounds [of x] assms by simp
  ultimately show False using assms by linarith
qed

lemma f64_round_minus: "f64_round (- x) = - f64_round x"
  by (simp add: f64_round_def f64_exp_def round_even_minus)

lemma f64_round_nonneg: "0 \<le> x \<Longrightarrow> 0 \<le> f64_round x"
proof -
  assume "0 \<le> x"
  then have "rat_of_int 0 \<le> x / pow2 (f64_exp x)" using pow2_pos [of "f64_exp x"] by simp
  then have "0 \<le> round_even (x / pow2 (f64_exp x))" by (rule round_even_ge)
  then show ?thesis using pow2_pos [of "f64_exp x"] by (simp add: f64_round_def)
qed

lemma f64_round_mono_pos:
  assumes "0 < x" and "x \<le> y"
  shows "f64_round x \<le> f64_round y"
proof -
  have y0: "0 < y" using assms by simp
  have ee: "f64_exp x \<le> f64_exp y"
    using ilog2_mono [of x y] assms by (simp add: f64_exp_def)
  have rx: "f64_round x = of_int (round_even (x / pow2 (f64_exp x))) * pow2 (f64_exp x)"
    using assms by (simp add: f64_round_def)
  have ry: "f64_round y = of_int (round_even (y / pow2 (f64_exp y))) * pow2 (f64_exp y)"
    using y0 by (simp add: f64_round_def)
  show ?thesis
  proof (cases "f64_exp x = f64_exp y")
    case True
    have "x / pow2 (f64_exp y) \<le> y / pow2 (f64_exp y)"
      using assms pow2_pos [of "f64_exp y"] by (simp add: divide_right_mono)
    then have "round_even (x / pow2 (f64_exp y)) \<le> round_even (y / pow2 (f64_exp y))"
      by (rule round_even_mono)
    then have "rat_of_int (round_even (x / pow2 (f64_exp y))) * pow2 (f64_exp y)
        \<le> of_int (round_even (y / pow2 (f64_exp y))) * pow2 (f64_exp y)"
      using pow2_pos [of "f64_exp y"] by (simp add: mult_right_mono)
    then show ?thesis by (simp add: rx ry True)
  next
    case False
    with ee have lt: "f64_exp x + 1 \<le> f64_exp y" by simp
    have "ilog2 x + 1 \<le> f64_exp x + 53" using assms by (simp add: f64_exp_def)
    then have "pow2 (ilog2 x + 1) \<le> pow2 (f64_exp x + 53)" by (rule pow2_mono)
    then have "x < pow2 (f64_exp x + 53)" using ilog2_bounds [of x] assms by simp
    then have "x < pow2 (f64_exp x) * 2 ^ 53"
      using pow2_add [of "f64_exp x" 53] pow2_nat [of 53] by simp
    then have "x / pow2 (f64_exp x) \<le> rat_of_int (2 ^ 53)"
      using pow2_pos [of "f64_exp x"] by (simp add: pos_divide_le_eq mult.commute)
    then have "round_even (x / pow2 (f64_exp x)) \<le> 2 ^ 53" by (rule round_even_le)
    then have "rat_of_int (round_even (x / pow2 (f64_exp x))) \<le> 2 ^ 53" by simp
    then have "f64_round x \<le> 2 ^ 53 * pow2 (f64_exp x)"
      using pow2_pos [of "f64_exp x"] by (simp add: rx mult_right_mono)
    also have "\<dots> = pow2 (f64_exp x + 53)"
      using pow2_add [of "f64_exp x" 53] pow2_nat [of 53] by simp
    also have "\<dots> \<le> pow2 (f64_exp y + 52)" using lt by (simp add: pow2_mono)
    finally have up: "f64_round x \<le> pow2 (f64_exp y + 52)" .
    have "- 1074 < f64_exp y" using lt by (simp add: f64_exp_def)
    then have ey: "f64_exp y + 52 = ilog2 y" using y0 by (simp add: f64_exp_def)
    have "pow2 (f64_exp y + 52) \<le> y" using ilog2_bounds [of y] y0 by (simp add: ey)
    then have "pow2 (f64_exp y) * 2 ^ 52 \<le> y"
      using pow2_add [of "f64_exp y" 52] pow2_nat [of 52] by simp
    then have "rat_of_int (2 ^ 52) \<le> y / pow2 (f64_exp y)"
      using pow2_pos [of "f64_exp y"] by (simp add: pos_le_divide_eq mult.commute)
    then have "2 ^ 52 \<le> round_even (y / pow2 (f64_exp y))" by (rule round_even_ge)
    then have "2 ^ 52 \<le> rat_of_int (round_even (y / pow2 (f64_exp y)))" by simp
    then have "2 ^ 52 * pow2 (f64_exp y) \<le> f64_round y"
      using pow2_pos [of "f64_exp y"] by (simp add: ry mult_right_mono)
    moreover have "2 ^ 52 * pow2 (f64_exp y) = pow2 (f64_exp y + 52)"
      using pow2_add [of "f64_exp y" 52] pow2_nat [of 52] by simp
    ultimately have "pow2 (f64_exp y + 52) \<le> f64_round y" by simp
    with up show ?thesis by linarith
  qed
qed

lemma f64_round_mono:
  assumes "x \<le> y"
  shows "f64_round x \<le> f64_round y"
proof -
  consider "0 < x" | "x \<le> 0" "0 \<le> y" | "y < 0" by linarith
  then show ?thesis
  proof cases
    case 1
    then show ?thesis using assms by (rule f64_round_mono_pos)
  next
    case 2
    have "0 \<le> f64_round (- x)" using 2 by (simp add: f64_round_nonneg)
    then have "f64_round x \<le> 0" by (simp add: f64_round_minus)
    moreover have "0 \<le> f64_round y" using 2 by (simp add: f64_round_nonneg)
    ultimately show ?thesis by linarith
  next
    case 3
    then have "f64_round (- y) \<le> f64_round (- x)"
      using assms by (intro f64_round_mono_pos) simp_all
    then show ?thesis by (simp add: f64_round_minus)
  qed
qed

section \<open>Bounds of the backoff delay\<close>







lemma default_factor: "f64_round (8 / 5) = 3602879701896397 / 2251799813685248"
  by code_simp











text \<open>The loop never leaves the range of finite float64 values.\<close>

lemma grow_upper:
  "0 \<le> fac \<Longrightarrow> b \<le> B \<Longrightarrow> f64_round (mx * fac) \<le> B \<Longrightarrow> grow fac mx b n \<le> B"
proof (induction n arbitrary: b)
  case 0
  then show ?case by simp
next
  case (Suc n)
  show ?case
  proof (cases "b < mx")
    case True
    then have "b * fac \<le> mx * fac" using Suc.prems(1) by (simp add: mult_right_mono)
    then have "f64_round (b * fac) \<le> f64_round (mx * fac)" by (rule f64_round_mono)
    then have "f64_mul b fac \<le> B" using Suc.prems(3) by (simp add: f64_mul_def)
    then show ?thesis using True Suc.IH [OF Suc.prems(1) _ Suc.prems(3)] by simp
  next
    case False
    then show ?thesis using Suc.prems by simp
  qed
qed

lemma max_times_factor:
  "f64_round (180000000000 * (3602879701896397 / 2251799813685248)) = 288000000000"
  by code_simp

lemma grow_default_upper:
  "grow (factor NewBackoff) 180000000000 1000000000 n \<le> 288000000000"
proof -
  have f: "factor NewBackoff = 3602879701896397 / 2251799813685248"
    by (simp add: NewBackoff_def default_factor)
  have "f64_round (180000000000 * factor NewBackoff) \<le> 288000000000"
    unfolding f by (simp only: max_times_factor)
  then show ?thesis by (intro grow_upper) (simp_all add: NewBackoff_def default_factor)
qed

section \<open>Properties of the token cache\<close>

lemma GetAccessToken_hit:
  "accessToken d \<noteq> [] \<Longrightarrow> now_check env < expireTime d \<Longrightarrow>
   GetAccessToken env d = (Inr (accessToken d), d, [])"
  by (simp add: GetAccessToken_def)

lemma GetAccessToken_empty_fetches:
  "accessToken d = [] \<Longrightarrow>
   snd (snd (GetAccessToken env d)) = [TokenFetch (appKey d) (appSecret d)]"
  by (simp add: GetAccessToken_def Let_def split: http_get.splits prod.splits option.splits)

lemma acquire_all_hits:
  "accessToken d \<noteq> [] \<Longrightarrow> \<forall>e\<in>set envs. now_check e < expireTime d \<Longrightarrow>
   acquire_all envs d = (replicate (length envs) (Inr (accessToken d)), d, [])"
  by (induction envs) (simp_all add: GetAccessToken_hit)

text \<open>
  C1. With a non-empty cached token and the clock before the stored expiry,
  \<^verbatim>\<open>GetAccessToken\<close> returns the cached token and no error, makes no request, and
  leaves the client as it was; any number of calls in a row, each made before the expiry,
  all return the cached token, make no request and leave the client unchanged.
\<close>

theorem cache_hit_returns_cached:
  assumes "accessToken d \<noteq> []"
    and "now_check env < expireTime d"
    and "\<forall>e\<in>set envs. now_check e < expireTime d"
  shows "GetAccessToken env d = (Inr (accessToken d), d, []) \<and>
         acquire_all envs d = (replicate (length envs) (Inr (accessToken d)), d, [])"
  using assms by (simp add: GetAccessToken_hit acquire_all_hits)

theorem cache_hit_returns_cached_witness:
  "GetAccessToken (env_at 10 (GetError ''down'')) client0 = (Inr ''tok'', client0, []) \<and>
   acquire_all [env_at 20 (GetError ''down''), env_at 7199 (GetError ''down'')] client0
     = ([Inr ''tok'', Inr ''tok''], client0, [])"
  using cache_hit_returns_cached [of client0 "env_at 10 (GetError ''down'')"
      "[env_at 20 (GetError ''down''), env_at 7199 (GetError ''down'')]"]
  by (simp add: client0_def env_at_def)

text \<open>
  C2. When the cache does not answer and the request returns status 200 with a decoded
  response whose \<^verbatim>\<open>ErrCode\<close> is not zero, \<^verbatim>\<open>GetAccessToken\<close> makes one request,
  returns the error built from the remote message and code, empties the cached token and
  resets the expiry to the current instant; the next call, whatever its surroundings,
  makes a request again.
\<close>

theorem app_error_invalidates_cache:
  assumes "\<not> (accessToken d \<noteq> [] \<and> now_check env < expireTime d)"
    and "token_get env = GetResponse 200 status (Decoded atr)"
    and "ErrCode atr \<noteq> 0"
  shows "GetAccessToken env d =
           (Inl (TokenRejected (ErrMsg atr) (ErrCode atr)),
            d\<lparr>accessToken := [], expireTime := now_store env\<rparr>,
            [TokenFetch (appKey d) (appSecret d)]) \<and>
         snd (snd (GetAccessToken env' (fst (snd (GetAccessToken env d))))) =
           [TokenFetch (appKey d) (appSecret d)]"
proof -
  have first: "GetAccessToken env d =
      (Inl (TokenRejected (ErrMsg atr) (ErrCode atr)),
       d\<lparr>accessToken := [], expireTime := now_store env\<rparr>,
       [TokenFetch (appKey d) (appSecret d)])"
    using assms by (simp add: GetAccessToken_def Let_def)
  have "snd (snd (GetAccessToken env' (d\<lparr>accessToken := [], expireTime := now_store env\<rparr>))) =
      [TokenFetch (appKey d) (appSecret d)]"
    using GetAccessToken_empty_fetches [of "d\<lparr>accessToken := [], expireTime := now_store env\<rparr>" env']
    by simp
  with first show ?thesis by simp
qed

theorem app_error_invalidates_cache_witness:
  "GetAccessToken (env_at 7200 (GetResponse 200 ''200 OK'' (Decoded rejected_resp))) client0 =
     (Inl (TokenRejected ''bad secret'' 40089),
      client0\<lparr>accessToken := [], expireTime := 7200\<rparr>,
      [TokenFetch ''k'' ''s'']) \<and>
   snd (snd (GetAccessToken (env_at 0 (GetError ''down''))
     (fst (snd (GetAccessToken
        (env_at 7200 (GetResponse 200 ''200 OK'' (Decoded rejected_resp))) client0))))) =
     [TokenFetch ''k'' ''s'']"
  using app_error_invalidates_cache [of client0
      "env_at 7200 (GetResponse 200 ''200 OK'' (Decoded rejected_resp))" "''200 OK''"
      rejected_resp "env_at 0 (GetError ''down'')"]
  by (simp add: client0_def env_at_def rejected_resp_def GetAccessToken_def Let_def)

text \<open>
  C3. When the cache does not answer and the request fails in transport (\<^verbatim>\<open>http.Get\<close>
  returns an error, or the status code is not 200, or the connection fails while the
  body is read), \<^verbatim>\<open>GetAccessToken\<close> returns an error and the client, token and expiry
  included, is exactly as before.
\<close>

theorem transport_failure_keeps_cache:
  assumes "\<not> (accessToken d \<noteq> [] \<and> now_check env < expireTime d)"
    and "token_get env = GetError e \<or>
         (token_get env = GetResponse code status b \<and> code \<noteq> 200) \<or>
         token_get env = GetResponse code status (Unreadable e)"
  shows "isl (fst (GetAccessToken env d)) \<and>
         fst (snd (GetAccessToken env d)) = d \<and>
         snd (snd (GetAccessToken env d)) = [TokenFetch (appKey d) (appSecret d)]"
  using assms by (auto simp add: GetAccessToken_def Let_def)

theorem transport_failure_keeps_cache_witness:
  "(isl (fst (GetAccessToken (env_at 7200 (GetResponse 503 ''503 Service Unavailable''
       (Decoded rejected_resp))) client0)) \<and>
    fst (snd (GetAccessToken (env_at 7200 (GetResponse 503 ''503 Service Unavailable''
       (Decoded rejected_resp))) client0)) = client0 \<and>
    snd (snd (GetAccessToken (env_at 7200 (GetResponse 503 ''503 Service Unavailable''
       (Decoded rejected_resp))) client0)) = [TokenFetch ''k'' ''s'']) \<and>
   (isl (fst (GetAccessToken (env_at 7200 (GetResponse 200 ''200 OK''
       (Unreadable ''connection reset''))) client0)) \<and>
    fst (snd (GetAccessToken (env_at 7200 (GetResponse 200 ''200 OK''
       (Unreadable ''connection reset''))) client0)) = client0 \<and>
    snd (snd (GetAccessToken (env_at 7200 (GetResponse 200 ''200 OK''
       (Unreadable ''connection reset''))) client0)) = [TokenFetch ''k'' ''s''])"
  using transport_failure_keeps_cache [of client0
      "env_at 7200 (GetResponse 503 ''503 Service Unavailable'' (Decoded rejected_resp))"
      "''x''" 503 "''503 Service Unavailable''" "Decoded rejected_resp"]
    transport_failure_keeps_cache [of client0
      "env_at 7200 (GetResponse 200 ''200 OK'' (Unreadable ''connection reset''))"
      "''connection reset''" 200 "''200 OK''" "Unreadable ''connection reset''"]
  by (simp add: client0_def env_at_def)

text \<open>Within these bounds the int64 product with \<^verbatim>\<open>time.Second\<close> does not wrap.\<close>

lemma seconds_no_wrap:
  assumes "- 9223372036 \<le> sint t" and "sint t \<le> 9223372036"
  shows "sint (t * Second) = sint t * 1000000000"
proof -
  have "sint (t * Second) = signed_take_bit 63 (sint t * 1000000000)"
    by (simp add: Second_def sint_word_ariths)
  also have "\<dots> = sint t * 1000000000"
    using assms by (subst signed_take_bit_int_eq_self) simp_all
  finally show ?thesis .
qed

text \<open>
  C4, as the code has it. When the cache does not answer and the request returns status
  200 with a decoded response whose \<^verbatim>\<open>ErrCode\<close> is zero, \<^verbatim>\<open>GetAccessToken\<close> makes
  one request, stores the returned token, changes nothing of the client but the token
  and the expiry, and returns the token with no error, whatever the returned number of
  seconds; the expiry becomes the current instant plus that number of seconds provided
  the number, in nanoseconds, fits the int64 of a \<^verbatim>\<open>time.Duration\<close> (between
  -9223372036 and 9223372036 seconds), and the current instant plus the wrapped int64
  product otherwise.
\<close>

theorem fetch_success_stores_token:
  assumes "\<not> (accessToken d \<noteq> [] \<and> now_check env < expireTime d)"
    and "token_get env = GetResponse 200 status (Decoded atr)"
    and "ErrCode atr = 0"
  shows "GetAccessToken env d =
           (Inr (AccessToken atr),
            d\<lparr>accessToken := AccessToken atr,
              expireTime := now_store env + sint (ExpiresIn atr * Second)\<rparr>,
            [TokenFetch (appKey d) (appSecret d)]) \<and>
         (- 9223372036 \<le> sint (ExpiresIn atr) \<and> sint (ExpiresIn atr) \<le> 9223372036 \<longrightarrow>
            expireTime (fst (snd (GetAccessToken env d))) =
              now_store env + sint (ExpiresIn atr) * 1000000000)"
proof -
  have call: "GetAccessToken env d =
      (Inr (AccessToken atr),
       d\<lparr>accessToken := AccessToken atr,
         expireTime := now_store env + sint (ExpiresIn atr * Second)\<rparr>,
       [TokenFetch (appKey d) (appSecret d)])"
    using assms by (simp add: GetAccessToken_def Let_def)
  have "expireTime (fst (snd (GetAccessToken env d))) =
      now_store env + sint (ExpiresIn atr) * 1000000000"
    if "- 9223372036 \<le> sint (ExpiresIn atr)" and "sint (ExpiresIn atr) \<le> 9223372036"
    using that by (simp add: call seconds_no_wrap)
  with call show ?thesis by simp
qed

theorem fetch_success_stores_token_witness:
  "GetAccessToken (env_at 7200 (GetResponse 200 ''200 OK'' (Decoded (granted_resp 7200)))) client0 =
     (Inr ''fresh'',
      client0\<lparr>accessToken := ''fresh'', expireTime := 7200000007200\<rparr>,
      [TokenFetch ''k'' ''s'']) \<and>
   expireTime (fst (snd (GetAccessToken
       (env_at 7200 (GetResponse 200 ''200 OK'' (Decoded (granted_resp 7200)))) client0))) =
     7200 + 7200 * 1000000000"
  using fetch_success_stores_token [of client0
      "env_at 7200 (GetResponse 200 ''200 OK'' (Decoded (granted_resp 7200)))" "''200 OK''"
      "granted_resp 7200"]
  by (simp add: client0_def env_at_def granted_resp_def Second_def)

text \<open>
  A returned 9223372037 seconds is past what the int64 product with \<^verbatim>\<open>time.Second\<close>
  holds: the product wraps, and the stored expiry lies before the current instant.
\<close>

theorem fetch_success_expiry_counterexample:
  "expireTime (fst (snd (GetAccessToken
       (env_at 0 (GetResponse 200 ''200 OK'' (Decoded (granted_resp 9223372037))))
       (NewDingTalkClient ''a'' ''k'' ''s''))))
     = - 9223372036709551616 \<and>
   expireTime (fst (snd (GetAccessToken
       (env_at 0 (GetResponse 200 ''200 OK'' (Decoded (granted_resp 9223372037))))
       (NewDingTalkClient ''a'' ''k'' ''s''))))
     \<noteq> 0 + 9223372037 * 1000000000"
  by (simp add: GetAccessToken_def Let_def NewDingTalkClient_def env_at_def granted_resp_def
      Second_def)

section \<open>Properties of the backoff policy\<close>







section \<open>Properties of the robot send\<close>

lemma posted_append: "posted (xs @ ys) = posted xs @ posted ys"
  by (induction xs rule: posted.induct) simp_all

lemma slept_append: "slept (xs @ ys) = slept xs @ slept ys"
  by (induction xs rule: slept.induct) simp_all

lemma GetAccessToken_events:
  "snd (snd (GetAccessToken env d)) = [] \<or>
   snd (snd (GetAccessToken env d)) = [TokenFetch (appKey d) (appSecret d)]"
  by (simp add: GetAccessToken_def Let_def split: http_get.splits prod.splits option.splits)

lemma GetAccessToken_posted:
  "GetAccessToken env d = (r, d', evs) \<Longrightarrow> posted evs = [] \<and> slept evs = []"
  using GetAccessToken_events [of env d] by auto

lemma send_loop_posted:
  "set (posted (snd (snd (snd (send_loop env q t n r e))))) \<subseteq> {q}"
proof (induction env q t n r e rule: send_loop.induct)
  case (1 env q t n r e)
  show ?case
  proof (cases "n > 3")
    case True
    then show ?thesis by (subst send_loop.simps) simp
  next
    case False
    show ?thesis
    proof (cases "post (relay env (nat n)) r")
      case (Pair eo r')
      show ?thesis
      proof (cases eo)
        case None
        then show ?thesis using False Pair by (subst send_loop.simps) simp
      next
        case (Some e')
        then show ?thesis
          using False Pair "1.IH" [OF False Pair [symmetric] Some]
          by (subst send_loop.simps) (auto split: prod.splits)
      qed
    qed
  qed
qed

lemma send_loop_posts_first:
  "n \<le> 3 \<Longrightarrow> posted (snd (snd (snd (send_loop env q t n r e)))) \<noteq> []"
  by (subst send_loop.simps) (simp split: prod.splits option.splits)

lemma send_loop_all_fail:
  assumes "\<forall>i r. fst (post (relay env i) r) \<noteq> None"
  shows "\<exists>r e. send_loop env q t 0 r0 None = (4, r, Some e,
     [Post q t, Sleep (Duration NewBackoff 1 (draw env 0)),
      Post q t, Sleep (Duration NewBackoff 2 (draw env 1)),
      Post q t, Sleep (Duration NewBackoff 3 (draw env 2)),
      Post q t, Sleep (Duration NewBackoff 4 (draw env 3))])"
proof -
  have fails: "\<exists>e r'. post (relay env i) r = (Some e, r')" for i r
  proof (cases "post (relay env i) r")
    case (Pair a b)
    moreover have "a \<noteq> None" using assms [rule_format, of i r] Pair by simp
    ultimately show ?thesis by auto
  qed
  obtain e0 r1 where p0: "post (relay env 0) r0 = (Some e0, r1)" using fails by blast
  obtain e1 r2 where p1: "post (relay env (Suc 0)) r1 = (Some e1, r2)" using fails by blast
  obtain e2 r3 where p2: "post (relay env 2) r2 = (Some e2, r3)" using fails by blast
  obtain e3 r4 where p3: "post (relay env 3) r3 = (Some e3, r4)" using fails by blast
  have s4: "send_loop env q t 4 r4 (Some e3) = (4, r4, Some e3, [])"
    by (subst send_loop.simps) simp
  have s3: "send_loop env q t 3 r3 (Some e2) = (4, r4, Some e3,
      [Post q t, Sleep (Duration NewBackoff 4 (draw env 3))])"
    by (subst send_loop.simps) (simp add: p3 s4)
  have s2: "send_loop env q t 2 r2 (Some e1) = (4, r4, Some e3,
      [Post q t, Sleep (Duration NewBackoff 3 (draw env 2)),
       Post q t, Sleep (Duration NewBackoff 4 (draw env 3))])"
    by (subst send_loop.simps) (simp add: p2 s3)
  have s1: "send_loop env q t 1 r1 (Some e0) = (4, r4, Some e3,
      [Post q t, Sleep (Duration NewBackoff 2 (draw env 1)),
       Post q t, Sleep (Duration NewBackoff 3 (draw env 2)),
       Post q t, Sleep (Duration NewBackoff 4 (draw env 3))])"
    by (subst send_loop.simps) (simp add: p1 s2)
  have s0: "send_loop env q t 0 r0 None = (4, r4, Some e3,
      [Post q t, Sleep (Duration NewBackoff 1 (draw env 0)),
       Post q t, Sleep (Duration NewBackoff 2 (draw env 1)),
       Post q t, Sleep (Duration NewBackoff 3 (draw env 2)),
       Post q t, Sleep (Duration NewBackoff 4 (draw env 3))])"
    by (subst send_loop.simps) (simp add: p0 s1)
  then show ?thesis by blast
qed

lemma env1_token:
  "GetAccessToken (token_surroundings env1) client0 = (Inr ''tok'', client0, [])"
  by (simp add: env1_def env_at_def client0_def GetAccessToken_def)

lemma env2_token:
  "GetAccessToken (token_surroundings env2) client0 = (Inr ''tok'', client0, [])"
  by (simp add: env2_def env_at_def client0_def GetAccessToken_def)

text \<open>
  C7. When the token is acquired, the message is marshalled, there is a recipient and
  every call of \<^verbatim>\<open>post\<close> returns an error, \<^verbatim>\<open>SendMessageFromRobot\<close> posts four
  times, sleeps four times, after the last failed call too, for the delays of the retry
  counts 1 to 4, and returns the error that reports 4 retries.
\<close>

theorem send_gives_up_after_four_failures:
  assumes "GetAccessToken (token_surroundings env) d = (Inr tok, d', evs)"
    and "marshal env \<lparr>Title = title, Text = content\<rparr> = Inr msg"
    and "to \<noteq> []"
    and "\<forall>i r. fst (post (relay env i) r) \<noteq> None"
  shows "(\<exists>e. fst (SendMessageFromRobot env d robotCode title content to) = Inl (SendFailed 4 e)) \<and>
         length (posted (snd (snd (SendMessageFromRobot env d robotCode title content to)))) = 4 \<and>
         slept (snd (snd (SendMessageFromRobot env d robotCode title content to))) =
           [Duration NewBackoff 1 (draw env 0), Duration NewBackoff 2 (draw env 1),
            Duration NewBackoff 3 (draw env 2), Duration NewBackoff 4 (draw env 3)]"
proof -
  define q where "q = \<lparr>RobotCode = robotCode,
      UserIDs = (if length to > 20 then take 20 to else to),
      MsgKey = ''officialMarkdownMsg'', MsgParam = msg\<rparr>"
  obtain r e where loop: "send_loop env q tok 0 zero_SendMsgByRobotResp None = (4, r, Some e,
     [Post q tok, Sleep (Duration NewBackoff 1 (draw env 0)),
      Post q tok, Sleep (Duration NewBackoff 2 (draw env 1)),
      Post q tok, Sleep (Duration NewBackoff 3 (draw env 2)),
      Post q tok, Sleep (Duration NewBackoff 4 (draw env 3))])"
    using send_loop_all_fail [OF assms(4)] by blast
  have quiet: "posted evs = [] \<and> slept evs = []"
    using assms(1) by (rule GetAccessToken_posted)
  have "SendMessageFromRobot env d robotCode title content to =
      (Inl (SendFailed 4 e), d', evs @
       [Post q tok, Sleep (Duration NewBackoff 1 (draw env 0)),
        Post q tok, Sleep (Duration NewBackoff 2 (draw env 1)),
        Post q tok, Sleep (Duration NewBackoff 3 (draw env 2)),
        Post q tok, Sleep (Duration NewBackoff 4 (draw env 3))])"
    using assms(1,2,3) loop by (simp add: SendMessageFromRobot_def Let_def q_def)
  then show ?thesis using quiet by (simp add: posted_append slept_append)
qed

theorem send_gives_up_after_four_failures_witness:
  "(\<exists>e. fst (SendMessageFromRobot env1 client0 ''r'' ''t'' ''c'' [''u1'']) =
        Inl (SendFailed 4 e)) \<and>
   length (posted (snd (snd (SendMessageFromRobot env1 client0 ''r'' ''t'' ''c'' [''u1''])))) = 4 \<and>
   slept (snd (snd (SendMessageFromRobot env1 client0 ''r'' ''t'' ''c'' [''u1'']))) =
     [Duration NewBackoff 1 (draw env1 0), Duration NewBackoff 2 (draw env1 1),
      Duration NewBackoff 3 (draw env1 2), Duration NewBackoff 4 (draw env1 3)]"
proof -
  have m: "marshal env1 \<lparr>Title = ''t'', Text = ''c''\<rparr> = Inr ''tc''" by (simp add: env1_def)
  have t: "[''u1''] \<noteq> []" by simp
  have f: "\<forall>i r. fst (post (relay env1 i) r) \<noteq> None" by (simp add: env1_def)
  show ?thesis by (rule send_gives_up_after_four_failures [OF env1_token m t f])
qed

text \<open>The same call, evaluated: the error reports 4, and a sleep follows the fourth post.\<close>

lemma send_all_fail_evaluated:
  "SendMessageFromRobot env1 client0 ''r'' ''t'' ''c'' [''u1''] =
     (Inl (SendFailed 4 (RequestFailed ''refused'')), client0,
      [Post \<lparr>RobotCode = ''r'', UserIDs = [''u1''], MsgKey = ''officialMarkdownMsg'',
             MsgParam = ''tc''\<rparr> ''tok'',
       Sleep 1600000000,
       Post \<lparr>RobotCode = ''r'', UserIDs = [''u1''], MsgKey = ''officialMarkdownMsg'',
             MsgParam = ''tc''\<rparr> ''tok'',
       Sleep 2560000000,
       Post \<lparr>RobotCode = ''r'', UserIDs = [''u1''], MsgKey = ''officialMarkdownMsg'',
             MsgParam = ''tc''\<rparr> ''tok'',
       Sleep 4096000000,
       Post \<lparr>RobotCode = ''r'', UserIDs = [''u1''], MsgKey = ''officialMarkdownMsg'',
             MsgParam = ''tc''\<rparr> ''tok'',
       Sleep 6553600000])"
  by code_simp

text \<open>
  C8. When the token is acquired and the message is marshalled, a call with more than
  20 recipients, 25 among them, posts at least one request, and every request it posts
  carries exactly the first 20 recipients, in order.
\<close>

theorem recipients_truncated_to_twenty:
  assumes "GetAccessToken (token_surroundings env) d = (Inr tok, d', evs)"
    and "marshal env \<lparr>Title = title, Text = content\<rparr> = Inr msg"
    and "20 < length to"
  shows "posted (snd (snd (SendMessageFromRobot env d robotCode title content to))) \<noteq> [] \<and>
         (\<forall>q\<in>set (posted (snd (snd (SendMessageFromRobot env d robotCode title content to)))).
            UserIDs q = take 20 to \<and> length (UserIDs q) = 20)"
proof -
  define q where "q = \<lparr>RobotCode = robotCode, UserIDs = take 20 to,
      MsgKey = ''officialMarkdownMsg'', MsgParam = msg\<rparr>"
  define l where "l = send_loop env q tok 0 zero_SendMsgByRobotResp None"
  have quiet: "posted evs = []" using assms(1) GetAccessToken_posted by blast
  have ev: "snd (snd (SendMessageFromRobot env d robotCode title content to)) =
      evs @ snd (snd (snd l))"
    using assms by (auto simp add: SendMessageFromRobot_def Let_def q_def l_def
        split: prod.splits option.splits)
  have sub: "set (posted (snd (snd (snd l)))) \<subseteq> {q}" unfolding l_def by (rule send_loop_posted)
  have ne: "posted (snd (snd (snd l))) \<noteq> []" unfolding l_def by (rule send_loop_posts_first) simp
  have uq: "UserIDs q = take 20 to \<and> length (UserIDs q) = 20" using assms(3) by (simp add: q_def)
  show ?thesis using sub ne uq quiet by (auto simp add: ev posted_append)
qed

theorem recipients_truncated_to_twenty_witness:
  "posted (snd (snd (SendMessageFromRobot env2 client0 ''r'' ''t'' ''c'' ids25))) \<noteq> [] \<and>
   UserIDs (hd (posted (snd (snd (SendMessageFromRobot env2 client0 ''r'' ''t'' ''c'' ids25)))))
     = take 20 ids25 \<and>
   length (UserIDs (hd (posted (snd (snd
     (SendMessageFromRobot env2 client0 ''r'' ''t'' ''c'' ids25)))))) = 20 \<and>
   length ids25 = 25"
proof -
  have m: "marshal env2 \<lparr>Title = ''t'', Text = ''c''\<rparr> = Inr ''tc''" by (simp add: env2_def)
  have l: "20 < length ids25" by (simp add: ids25_def)
  have n: "length ids25 = 25" by (simp add: ids25_def)
  show ?thesis
    using recipients_truncated_to_twenty [OF env2_token m l, of "''r''"] n
    by (simp add: hd_in_set)
qed

text \<open>
  C10. When the token is acquired and the message is marshalled, a call with no
  recipient returns no response and no error; what it did is what
  \<^verbatim>\<open>GetAccessToken\<close> did, with no request posted and no sleep.
\<close>

theorem empty_recipients_send_nothing:
  assumes "GetAccessToken (token_surroundings env) d = (Inr tok, d', evs)"
    and "marshal env \<lparr>Title = title, Text = content\<rparr> = Inr msg"
  shows "SendMessageFromRobot env d robotCode title content [] = (Inr None, d', evs) \<and>
         posted evs = [] \<and> slept evs = []"
  using assms GetAccessToken_posted [OF assms(1)] by (simp add: SendMessageFromRobot_def)

theorem empty_recipients_send_nothing_witness:
  "SendMessageFromRobot env2 client0 ''r'' ''t'' ''c'' [] = (Inr None, client0, []) \<and>
   posted [] = [] \<and> slept [] = []"
proof -
  have m: "marshal env2 \<lparr>Title = ''t'', Text = ''c''\<rparr> = Inr ''tc''" by (simp add: env2_def)
  show ?thesis by (rule empty_recipients_send_nothing [OF env2_token m])
qed

end
